theory Spec2Isabelle
  imports Complex_Main
begin

section \<open>The ballistic trajectory engine of lab01/main.py\<close>

text \<open>
  The model covers \<open>BallisticApp.calculate_drag_force\<close>, \<open>BallisticApp.run_simulation\<close>
  and the flight-time expression of \<open>BallisticApp.update_table\<close>.

  Python's \<open>float\<close> is modelled by the mathematical reals (the semantic type the
  specification gives every field): rounding, overflow and underflow of IEEE doubles are
  outside the model. What Python can raise on real numbers is kept as a value: a
  division by zero and \<open>math.sqrt\<close> of a negative number.
\<close>

subsection \<open>Data\<close>

text \<open>The dictionary returned by \<open>get_parameters\<close>; field \<open>p_k\<close> is \<open>params['k']\<close>.\<close>

record params =
  p_v0 :: real
  p_angle :: real
  p_mass :: real
  p_rho :: real
  p_Cd :: real
  p_A :: real
  p_dt :: real

text \<open>The dataclass \<open>SimulationResult\<close>; field \<open>r_k\<close> is attribute \<open>k\<close>.\<close>

record SimulationResult =
  r_dt :: real
  r_trajectory :: "(real \<times> real) list"
  r_speeds :: "real list"
  r_range :: real
  r_max_height :: real
  r_final_speed :: real

text \<open>The local variables of \<open>run_simulation\<close> that the loop reads and writes.\<close>

record state =
  s_x :: real
  s_y :: real
  s_vx :: real
  s_vy :: real
  s_trajectory :: "(real \<times> real) list"
  s_speeds :: "real list"
  s_t :: real
  s_max_height :: real

text \<open>The part of the application object that \<open>run_simulation\<close> changes.\<close>

record app =
  results :: "SimulationResult list"
  color_index :: nat

datatype error = ZeroDivisionError | ValueError

subsection \<open>Arithmetic that can raise\<close>

definition py_div :: "real \<Rightarrow> real \<Rightarrow> error + real" where
  "py_div a b = (if b = 0 then Inl ZeroDivisionError else Inr (a / b))"

definition math_sqrt :: "real \<Rightarrow> error + real" where
  "math_sqrt a = (if a < 0 then Inl ValueError else Inr (sqrt a))"

definition math_radians :: "real \<Rightarrow> real" where
  "math_radians a = a * (pi / 180)"

text \<open>Sequencing of two computations, the first of which may raise.\<close>

definition and_then :: "error + 'a \<Rightarrow> ('a \<Rightarrow> error + 'b) \<Rightarrow> error + 'b" where
  "and_then m f = (case m of Inl e \<Rightarrow> Inl e | Inr a \<Rightarrow> f a)"

subsection \<open>The engine\<close>

text \<open>\<open>self.g\<close>, assigned once in \<open>__init__\<close> and never written again.\<close>

definition self_g :: real where
  "self_g = 9.81"

text \<open>\<open>calculate_drag_force\<close> (line 164).\<close>

definition calculate_drag_force :: "real \<Rightarrow> params \<Rightarrow> real" where
  "calculate_drag_force v p = 0.5 * p_rho p * p_Cd p * p_A p * v ^ 2"

text \<open>
  Lines 184 to 188: the speed, the drag, and the two conditional expressions for
  \<open>ax\<close> and \<open>ay\<close>. The result is \<open>(ax, ay)\<close>.
\<close>

definition acceleration :: "params \<Rightarrow> real \<Rightarrow> real \<Rightarrow> error + (real \<times> real)" where
  "acceleration p vx vy =
     and_then (math_sqrt (vx ^ 2 + vy ^ 2)) (\<lambda>v.
       let drag = calculate_drag_force v p in
       and_then (if v > 0 then py_div (- drag * vx) (p_mass p * v) else Inr 0) (\<lambda>ax.
       and_then (if v > 0
                 then and_then (py_div (drag * vy) (p_mass p * v)) (\<lambda>q. Inr (- self_g - q))
                 else Inr (- self_g)) (\<lambda>ay.
       Inr (ax, ay))))"

text \<open>One pass through the body of the \<open>while\<close> loop (lines 184 to 200).\<close>

definition loop_body :: "params \<Rightarrow> state \<Rightarrow> error + state" where
  "loop_body p s =
     and_then (acceleration p (s_vx s) (s_vy s)) (\<lambda>(ax, ay).
       let dt = p_dt p;
           vx = s_vx s + ax * dt;
           vy = s_vy s + ay * dt;
           x = s_x s + vx * dt;
           y = s_y s + vy * dt;
           t = s_t s + dt
       in and_then (math_sqrt (vx * vx + vy * vy)) (\<lambda>speed.
            Inr \<lparr> s_x = x, s_y = y, s_vx = vx, s_vy = vy,
                  s_trajectory = s_trajectory s @ [(x, y)],
                  s_speeds = s_speeds s @ [speed],
                  s_t = t,
                  s_max_height = (if y > s_max_height s then y else s_max_height s) \<rparr>))"

text \<open>
  The loop \<open>while y >= 0\<close>. The first argument bounds the number of passes:
  \<open>None\<close> means that the bound was reached with \<open>y >= 0\<close> still true,
  \<open>Some (Inl e)\<close> that a pass raised \<open>e\<close>, \<open>Some (Inr s)\<close> that the loop
  was left in state \<open>s\<close>.
\<close>

fun loop :: "nat \<Rightarrow> params \<Rightarrow> state \<Rightarrow> (error + state) option" where
  "loop 0 p s = (if s_y s \<ge> 0 then None else Some (Inr s))"
| "loop (Suc n) p s =
     (if s_y s \<ge> 0
      then (case loop_body p s of Inl e \<Rightarrow> Some (Inl e) | Inr s' \<Rightarrow> loop n p s')
      else Some (Inr s))"

text \<open>Lines 171 to 181: the state in which the loop is entered.\<close>

definition init_state :: "params \<Rightarrow> error + state" where
  "init_state p =
     (let angle_rad = math_radians (p_angle p);
          x = 0; y = 0;
          vx = p_v0 p * cos angle_rad;
          vy = p_v0 p * sin angle_rad
      in and_then (math_sqrt (vx * vx + vy * vy)) (\<lambda>speed.
           Inr \<lparr> s_x = x, s_y = y, s_vx = vx, s_vy = vy,
                 s_trajectory = [(x, y)], s_speeds = [speed],
                 s_t = 0, s_max_height = 0 \<rparr>))"

text \<open>
  Lines 202 to 209. \<open>speeds[-1]\<close> is \<open>last\<close>: the list holds the initial speed
  from line 179 on and only grows, so it is never empty when the result is built.
\<close>

definition make_result :: "params \<Rightarrow> state \<Rightarrow> SimulationResult" where
  "make_result p s =
     \<lparr> r_dt = p_dt p,
       r_trajectory = s_trajectory s,
       r_speeds = s_speeds s,
       r_range = s_x s,
       r_max_height = s_max_height s,
       r_final_speed = last (s_speeds s) \<rparr>"

text \<open>Lines 171 to 209 of \<open>run_simulation\<close>: from the parameters to the result.\<close>

definition simulate :: "nat \<Rightarrow> params \<Rightarrow> (error + SimulationResult) option" where
  "simulate fuel p =
     (case init_state p of
        Inl e \<Rightarrow> Some (Inl e)
      | Inr s0 \<Rightarrow>
          (case loop fuel p s0 of
             None \<Rightarrow> None
           | Some (Inl e) \<Rightarrow> Some (Inl e)
           | Some (Inr s) \<Rightarrow> Some (Inr (make_result p s))))"

text \<open>
  \<open>run_simulation\<close>. The third argument is what \<open>get_parameters\<close> returned
  (\<open>None\<close> after a parse error: the method returns at once). The result is appended to
  \<open>self.results\<close>; \<open>animate_new_trajectory\<close> advances \<open>self.color_index\<close>.
  The drawing itself is not modelled.
\<close>

definition run_simulation :: "nat \<Rightarrow> app \<Rightarrow> params option \<Rightarrow> (error + app) option" where
  "run_simulation fuel a gp =
     (case gp of
        None \<Rightarrow> Some (Inr a)
      | Some p \<Rightarrow>
          (case simulate fuel p of
             None \<Rightarrow> None
           | Some (Inl e) \<Rightarrow> Some (Inl e)
           | Some (Inr r) \<Rightarrow>
               Some (Inr (a\<lparr> results := results a @ [r],
                              color_index := color_index a + 1 \<rparr>))))"

text \<open>\<open>update_table\<close>, line 262: the flight time shown for a result.\<close>

definition flight_time :: "SimulationResult \<Rightarrow> real" where
  "flight_time r = real (length (r_trajectory r)) * r_dt r"

subsection \<open>Quantities of the termination argument\<close>

text \<open>
  Not in the source: the speed of a state, and the factor \<open>k\<close> such that one pass
  multiplies the velocity by \<open>1 - k * v\<close> before gravity is applied.
\<close>

definition speed_of :: "state \<Rightarrow> real" where
  "speed_of s = sqrt ((s_vx s) ^ 2 + (s_vy s) ^ 2)"

definition drag_step :: "params \<Rightarrow> real" where
  "drag_step p = 0.5 * p_rho p * p_Cd p * p_A p * p_dt p / p_mass p"

subsection \<open>Sample inputs\<close>

text \<open>
  The defaults of \<open>__init__\<close> (mass 1.0, air density 1.29, drag coefficient 0.15,
  section 0.01, speed 100), fired straight up with a step of 5 s. On a vertical shot the
  speed is \<open>|vy|\<close>, so every sample is a rational number. The run makes two passes:
  the state on entry to the loop, the state on exit, and the result.
\<close>

definition vertical_shot :: params where
  "vertical_shot = \<lparr> p_v0 = 100, p_angle = 90, p_mass = 1, p_rho = 1.29, p_Cd = 0.15,
                      p_A = 0.01, p_dt = 5 \<rparr>"

definition vertical_shot_start :: state where
  "vertical_shot_start =
     \<lparr> s_x = 0, s_y = 0, s_vx = 0, s_vy = 100, s_trajectory = [(0, 0)],
       s_speeds = [100], s_t = 0, s_max_height = 0 \<rparr>"

definition vertical_shot_landed :: state where
  "vertical_shot_landed =
     \<lparr> s_x = 0, s_y = - (5623305683 / 25600000), s_vx = 0,
       s_vy = - (5952905683 / 128000000),
       s_trajectory = [(0, 0), (0, 103 / 8), (0, - (5623305683 / 25600000))],
       s_speeds = [100, 103 / 40, 5952905683 / 128000000],
       s_t = 10, s_max_height = 103 / 8 \<rparr>"

definition vertical_shot_result :: SimulationResult where
  "vertical_shot_result =
     \<lparr> r_dt = 5,
       r_trajectory = [(0, 0), (0, 103 / 8), (0, - (5623305683 / 25600000))],
       r_speeds = [100, 103 / 40, 5952905683 / 128000000],
       r_range = 0, r_max_height = 103 / 8,
       r_final_speed = 5952905683 / 128000000 \<rparr>"





text \<open>The same shot fired backwards (angle 180), in air of density 1.29.\<close>

definition backward_shot :: "real \<Rightarrow> params" where
  "backward_shot c = \<lparr> p_v0 = 100, p_angle = 180, p_mass = 1, p_rho = 1.29, p_Cd = c,
                         p_A = 0.01, p_dt = 1 \<rparr>"

text \<open>The application before any run, and after one run of the vertical shot.\<close>

definition empty_app :: app where
  "empty_app = \<lparr> results = [], color_index = 0 \<rparr>"

definition used_app :: app where
  "used_app = \<lparr> results = [vertical_shot_result], color_index = 1 \<rparr>"

section \<open>Auxiliary facts\<close>

subsection \<open>Sequencing and the operations that can raise\<close>

lemma and_then_Inr [simp]: "and_then (Inr a) f = f a"
  by (simp add: and_then_def)

lemma and_then_Inl [simp]: "and_then (Inl e) f = Inl e"
  by (simp add: and_then_def)

lemma and_then_eq_Inr: "and_then m f = Inr b \<longleftrightarrow> (\<exists>a. m = Inr a \<and> f a = Inr b)"
  by (cases m) simp_all

text \<open>A sum of two squares is never negative: \<open>math.sqrt\<close> does not raise on it.\<close>

lemma math_sqrt_squares [simp]: "math_sqrt (a * a + b * b) = Inr (sqrt (a * a + b * b))"
  by (simp add: math_sqrt_def not_less)

lemma math_sqrt_powers [simp]: "math_sqrt (a ^ 2 + b ^ 2) = Inr (sqrt (a ^ 2 + b ^ 2))"
  by (simp add: math_sqrt_def not_less)

subsection \<open>The acceleration, branch by branch\<close>

lemma acceleration_moving:
  assumes "0 < sqrt (vx ^ 2 + vy ^ 2)" and "p_mass p \<noteq> 0"
  shows "acceleration p vx vy =
     Inr (- calculate_drag_force (sqrt (vx ^ 2 + vy ^ 2)) p * vx / (p_mass p * sqrt (vx ^ 2 + vy ^ 2)),
          - self_g - calculate_drag_force (sqrt (vx ^ 2 + vy ^ 2)) p * vy / (p_mass p * sqrt (vx ^ 2 + vy ^ 2)))"
  using assms by (auto simp add: acceleration_def py_div_def Let_def)

lemma acceleration_at_rest:
  assumes "\<not> 0 < sqrt (vx ^ 2 + vy ^ 2)"
  shows "acceleration p vx vy = Inr (0, - self_g)"
  using assms by (simp add: acceleration_def Let_def)

text \<open>The guard \<open>v > 0\<close> does not protect against a mass of zero.\<close>

lemma acceleration_massless:
  assumes "0 < sqrt (vx ^ 2 + vy ^ 2)" and "p_mass p = 0"
  shows "acceleration p vx vy = Inl ZeroDivisionError"
  using assms by (simp add: acceleration_def py_div_def Let_def)


subsection \<open>One pass of the loop body\<close>

lemma loop_body_moving:
  assumes "0 < sqrt ((s_vx s) ^ 2 + (s_vy s) ^ 2)" and "p_mass p \<noteq> 0"
  shows "loop_body p s =
     (let v = sqrt ((s_vx s) ^ 2 + (s_vy s) ^ 2);
          drag = calculate_drag_force v p;
          vx = s_vx s + (- drag * s_vx s / (p_mass p * v)) * p_dt p;
          vy = s_vy s + (- self_g - drag * s_vy s / (p_mass p * v)) * p_dt p;
          x = s_x s + vx * p_dt p;
          y = s_y s + vy * p_dt p
      in Inr \<lparr> s_x = x, s_y = y, s_vx = vx, s_vy = vy,
               s_trajectory = s_trajectory s @ [(x, y)],
               s_speeds = s_speeds s @ [sqrt (vx * vx + vy * vy)],
               s_t = s_t s + p_dt p,
               s_max_height = (if y > s_max_height s then y else s_max_height s) \<rparr>)"
  using assms by (simp add: loop_body_def acceleration_moving Let_def)

lemma loop_body_at_rest:
  assumes "\<not> 0 < sqrt ((s_vx s) ^ 2 + (s_vy s) ^ 2)"
  shows "loop_body p s =
     (let vx = s_vx s + 0 * p_dt p;
          vy = s_vy s + (- self_g) * p_dt p;
          x = s_x s + vx * p_dt p;
          y = s_y s + vy * p_dt p
      in Inr \<lparr> s_x = x, s_y = y, s_vx = vx, s_vy = vy,
               s_trajectory = s_trajectory s @ [(x, y)],
               s_speeds = s_speeds s @ [sqrt (vx * vx + vy * vy)],
               s_t = s_t s + p_dt p,
               s_max_height = (if y > s_max_height s then y else s_max_height s) \<rparr>)"
  using assms by (simp add: loop_body_def acceleration_at_rest Let_def)

lemma loop_body_massless:
  assumes "0 < sqrt ((s_vx s) ^ 2 + (s_vy s) ^ 2)" and "p_mass p = 0"
  shows "loop_body p s = Inl ZeroDivisionError"
  using assms by (simp add: loop_body_def acceleration_massless)

lemma loop_body_total:
  assumes "p_mass p \<noteq> 0"
  shows "\<exists>s'. loop_body p s = Inr s'"
proof (cases "0 < sqrt ((s_vx s) ^ 2 + (s_vy s) ^ 2)")
  case True
  then show ?thesis using assms
    by (simp add: loop_body_def acceleration_moving Let_def)
next
  case False
  then show ?thesis
    by (simp add: loop_body_def acceleration_at_rest Let_def)
qed

lemma loop_body_Inr:
  assumes "loop_body p s = Inr s'"
  shows "\<exists>ax ay. acceleration p (s_vx s) (s_vy s) = Inr (ax, ay) \<and>
           s_vx s' = s_vx s + ax * p_dt p \<and>
           s_vy s' = s_vy s + ay * p_dt p \<and>
           s_x s' = s_x s + s_vx s' * p_dt p \<and>
           s_y s' = s_y s + s_vy s' * p_dt p"
  using assms
  by (auto simp add: loop_body_def and_then_eq_Inr Let_def split: prod.splits)

lemma loop_body_appends:
  assumes "loop_body p a = Inr b"
  shows "\<exists>speed. s_trajectory b = s_trajectory a @ [(s_x b, s_y b)] \<and>
                 s_speeds b = s_speeds a @ [speed] \<and>
                 s_t b = s_t a + p_dt p \<and>
                 s_max_height b = (if s_y b > s_max_height a then s_y b else s_max_height a)"
  using assms
  by (auto simp add: loop_body_def and_then_eq_Inr Let_def split: prod.splits)

subsection \<open>The loop\<close>

text \<open>
  The invariant rule: what holds on entry and is kept by every pass made with
  \<open>y \<ge> 0\<close> holds on exit, where moreover \<open>y < 0\<close>.
\<close>

lemma loop_rule:
  assumes "loop n p s = Some (Inr s')"
    and "I s"
    and "\<And>a b. I a \<Longrightarrow> 0 \<le> s_y a \<Longrightarrow> loop_body p a = Inr b \<Longrightarrow> I b"
  shows "I s' \<and> s_y s' < 0"
  using assms(1,2)
proof (induction n arbitrary: s)
  case 0
  then show ?case by (simp split: if_splits)
next
  case (Suc n)
  show ?case
  proof (cases "0 \<le> s_y s")
    case True
    with Suc.prems(1) obtain b where b: "loop_body p s = Inr b" "loop n p b = Some (Inr s')"
      by (auto split: sum.splits)
    from assms(3)[OF Suc.prems(2) True b(1)] have "I b" .
    from Suc.IH[OF b(2) this] show ?thesis .
  next
    case False
    with Suc.prems show ?thesis by simp
  qed
qed

text \<open>A larger bound on the number of passes does not change an outcome.\<close>

lemma loop_fuel_mono:
  "loop n p s = Some r \<Longrightarrow> loop (n + k) p s = Some r"
proof (induction n arbitrary: s)
  case 0
  then show ?case by (cases k) (simp_all split: if_splits)
next
  case (Suc n)
  then show ?case by (auto split: if_splits sum.splits)
qed

lemma loop_exit:
  assumes "s_y s < 0"
  shows "loop n p s = Some (Inr s)"
  using assms by (cases n) simp_all

lemma loop_no_error:
  assumes "p_mass p \<noteq> 0"
  shows "loop n p s \<noteq> Some (Inl e)"
proof (induction n arbitrary: s)
  case 0
  show ?case by simp
next
  case (Suc n)
  from loop_body_total[OF assms] obtain s' where "loop_body p s = Inr s'" by blast
  with Suc show ?case by simp
qed

subsection \<open>The whole run\<close>

lemma init_state_total:
  "init_state p =
     Inr \<lparr> s_x = 0, s_y = 0,
           s_vx = p_v0 p * cos (math_radians (p_angle p)),
           s_vy = p_v0 p * sin (math_radians (p_angle p)),
           s_trajectory = [(0, 0)],
           s_speeds = [sqrt (p_v0 p * cos (math_radians (p_angle p)) * (p_v0 p * cos (math_radians (p_angle p)))
                        + p_v0 p * sin (math_radians (p_angle p)) * (p_v0 p * sin (math_radians (p_angle p))))],
           s_t = 0, s_max_height = 0 \<rparr>"
  by (simp add: init_state_def Let_def)

lemma initial_speed:
  assumes "0 \<le> v"
  shows "sqrt (v * cos a * (v * cos a) + v * sin a * (v * sin a)) = v"
proof -
  have one: "cos a * cos a + sin a * sin a = 1" by (rule sin_cos_squared_add3)
  have ring: "v * c * (v * c) + v * d * (v * d) = v * v * (c * c + d * d)" for c d :: real
    by (simp add: algebra_simps)
  have "v * cos a * (v * cos a) + v * sin a * (v * sin a) =
        v * v * (cos a * cos a + sin a * sin a)"
    by (rule ring)
  also have "\<dots> = v * v" by (simp only: one mult_1_right)
  finally have eq: "v * cos a * (v * cos a) + v * sin a * (v * sin a) = v * v" .
  show ?thesis unfolding eq using assms by simp
qed

lemma simulate_eq_Inr:
  "simulate n p = Some (Inr r) \<longleftrightarrow>
     (\<exists>s0 s. init_state p = Inr s0 \<and> loop n p s0 = Some (Inr s) \<and> r = make_result p s)"
  by (auto simp add: simulate_def split: sum.splits option.splits)

lemma simulate_fuel_mono:
  assumes "simulate n p = Some x"
  shows "simulate (n + k) p = Some x"
proof -
  from init_state_total obtain s0 where s0: "init_state p = Inr s0" by blast
  with assms obtain y where y: "loop n p s0 = Some y"
    by (auto simp add: simulate_def split: option.splits)
  from loop_fuel_mono[OF y] have "loop (n + k) p s0 = Some y" .
  with assms s0 y show ?thesis by (simp add: simulate_def)
qed

lemma simulate_fuel_independent:
  assumes "simulate n p = Some x" and "simulate m p = Some y"
  shows "x = y"
proof (cases "n \<le> m")
  case True
  then obtain k where "m = n + k" using le_Suc_ex by blast
  with simulate_fuel_mono[OF assms(1), of k] assms(2) show ?thesis by simp
next
  case False
  then obtain k where "n = m + k" using le_Suc_ex[of m n] by auto
  with simulate_fuel_mono[OF assms(2), of k] assms(1) show ?thesis by simp
qed

subsection \<open>The sample runs, evaluated\<close>

lemmas eval_defs = loop_body_def acceleration_def calculate_drag_force_def py_div_def
  math_sqrt_def self_g_def Let_def

lemma vertical_shot_init: "init_state vertical_shot = Inr vertical_shot_start"
  by (simp add: init_state_def math_radians_def math_sqrt_def Let_def vertical_shot_def
      vertical_shot_start_def)

lemma vertical_shot_loop:
  "loop 2 vertical_shot vertical_shot_start = Some (Inr vertical_shot_landed)"
  by (simp add: numeral_2_eq_2 eval_defs real_sqrt_divide vertical_shot_def
      vertical_shot_start_def vertical_shot_landed_def)

lemma vertical_shot_run: "simulate 2 vertical_shot = Some (Inr vertical_shot_result)"
  by (simp add: simulate_def vertical_shot_init vertical_shot_loop make_result_def
      vertical_shot_landed_def vertical_shot_result_def)
     (simp add: vertical_shot_def)



text \<open>Fired backwards, the shot with the larger coefficient ends at the larger \<open>x\<close>.\<close>

lemma backward_shot_ranges:
  "\<exists>r1 r2. simulate 1 (backward_shot 0.15) = Some (Inr r1) \<and>
           simulate 1 (backward_shot 0.3) = Some (Inr r2) \<and>
           r_range r1 = - 90.325 \<and> r_range r2 = - 80.65"
  by (simp add: simulate_def init_state_def math_radians_def make_result_def eval_defs
      backward_shot_def)

subsection \<open>Runs that differ in the drag coefficient\<close>






subsection \<open>Termination of launches that do not point downwards\<close>

text \<open>
  One pass maps the velocity \<open>(vx, vy)\<close> to \<open>(f * vx, f * vy - g * dt)\<close> with
  \<open>f = 1 - drag_step p * v\<close>, also at speed zero.
\<close>

lemma speed_of_nonneg: "0 \<le> speed_of s"
  by (simp add: speed_of_def)

lemma velocity_step:
  assumes m: "p_mass p \<noteq> 0" and b: "loop_body p s = Inr s'"
  shows "s_vx s' = (1 - drag_step p * speed_of s) * s_vx s"
    and "s_vy s' = (1 - drag_step p * speed_of s) * s_vy s - self_g * p_dt p"
    and "s_y s' = s_y s + s_vy s' * p_dt p"
proof -
  from loop_body_Inr[OF b] obtain ax ay
    where acc: "acceleration p (s_vx s) (s_vy s) = Inr (ax, ay)"
      and vx: "s_vx s' = s_vx s + ax * p_dt p"
      and vy: "s_vy s' = s_vy s + ay * p_dt p"
      and y: "s_y s' = s_y s + s_vy s' * p_dt p" by blast
  show "s_y s' = s_y s + s_vy s' * p_dt p" by (rule y)
  have "ax * p_dt p = - (drag_step p * speed_of s) * s_vx s \<and>
        ay * p_dt p = - (drag_step p * speed_of s) * s_vy s - self_g * p_dt p"
  proof (cases "0 < speed_of s")
    case True
    then have pos: "0 < sqrt ((s_vx s) ^ 2 + (s_vy s) ^ 2)" by (simp add: speed_of_def)
    from True have nz: "speed_of s \<noteq> 0" by simp
    from acceleration_moving[OF pos m] acc
    have ax: "ax = - calculate_drag_force (speed_of s) p * s_vx s / (p_mass p * speed_of s)"
      and ay: "ay = - self_g - calculate_drag_force (speed_of s) p * s_vy s / (p_mass p * speed_of s)"
      by (simp_all add: speed_of_def)
    have k: "calculate_drag_force (speed_of s) p * w / (p_mass p * speed_of s) * p_dt p
             = drag_step p * speed_of s * w" for w
      using m nz by (simp add: calculate_drag_force_def drag_step_def power2_eq_square)
    from k[of "s_vx s"] k[of "s_vy s"] show ?thesis
      unfolding ax ay by (simp add: algebra_simps)
  next
    case False
    then have rest: "\<not> 0 < sqrt ((s_vx s) ^ 2 + (s_vy s) ^ 2)" by (simp add: speed_of_def)
    from False speed_of_nonneg[of s] have "speed_of s = 0"
      by linarith
    moreover from acceleration_at_rest[OF rest] acc have "ax = 0" "ay = - self_g" by simp_all
    ultimately show ?thesis by simp
  qed
  with vx vy show "s_vx s' = (1 - drag_step p * speed_of s) * s_vx s"
    and "s_vy s' = (1 - drag_step p * speed_of s) * s_vy s - self_g * p_dt p"
    by (simp_all add: algebra_simps)
qed

lemma vy_le_speed: "\<bar>s_vy s\<bar> \<le> speed_of s"
  unfolding speed_of_def by (rule real_sqrt_ge_abs2)

lemma speed_step:
  assumes m: "p_mass p \<noteq> 0" and b: "loop_body p s = Inr s'"
  shows "speed_of s' \<le> \<bar>1 - drag_step p * speed_of s\<bar> * speed_of s + \<bar>self_g * p_dt p\<bar>"
proof -
  define f where "f = 1 - drag_step p * speed_of s"
  define G where "G = self_g * p_dt p"
  from velocity_step[OF m b] have vx: "s_vx s' = f * s_vx s + 0" and vy: "s_vy s' = f * s_vy s + (- G)"
    by (simp_all add: f_def G_def)
  have "speed_of s' = sqrt ((f * s_vx s + 0) ^ 2 + (f * s_vy s + (- G)) ^ 2)"
    unfolding speed_of_def vx vy ..
  also have "\<dots> \<le> sqrt ((f * s_vx s) ^ 2 + (f * s_vy s) ^ 2) + sqrt (0 ^ 2 + (- G) ^ 2)"
    by (rule real_sqrt_sum_squares_triangle_ineq)
  also have "(f * s_vx s) ^ 2 + (f * s_vy s) ^ 2 = f ^ 2 * ((s_vx s) ^ 2 + (s_vy s) ^ 2)"
    by (simp add: power_mult_distrib distrib_left)
  also have "sqrt (f ^ 2 * ((s_vx s) ^ 2 + (s_vy s) ^ 2)) = \<bar>f\<bar> * speed_of s"
    by (simp add: real_sqrt_mult speed_of_def)
  also have "sqrt (0 ^ 2 + (- G) ^ 2) = \<bar>G\<bar>" by simp
  finally show ?thesis by (simp add: f_def G_def)
qed

text \<open>
  The gentle regime: the drag of one step takes away at most the whole velocity
  (\<open>drag_step p * v \<le> 1\<close>), and gravity is weak against drag
  (\<open>drag_step p * g * dt \<le> 1/4\<close>). It is kept by every pass, and in it the vertical
  velocity falls by at least \<open>g * dt\<close> per pass once it is counted from zero.
\<close>

lemma gentle_step:
  assumes m: "p_mass p \<noteq> 0" and c0: "0 \<le> drag_step p" and dt: "0 < p_dt p"
    and small: "drag_step p * (self_g * p_dt p) \<le> 1 / 4"
    and B: "drag_step p * speed_of s \<le> 1"
    and b: "loop_body p s = Inr s'"
  shows "drag_step p * speed_of s' \<le> 1"
    and "s_vy s' \<le> max (s_vy s) 0 - self_g * p_dt p"
    and "s_y s' = s_y s + s_vy s' * p_dt p"
proof -
  define c where "c = drag_step p"
  define v where "v = speed_of s"
  define G where "G = self_g * p_dt p"
  define f where "f = 1 - c * v"
  have v0: "0 \<le> v" by (simp add: v_def speed_of_nonneg)
  from dt have G0: "0 < G" by (simp add: G_def self_g_def)
  from c0 v0 have cv0: "0 \<le> c * v" by (simp add: c_def)
  from B have cv1: "c * v \<le> 1" by (simp add: c_def v_def)
  from cv0 cv1 have f0: "0 \<le> f" and f1: "f \<le> 1" by (simp_all add: f_def)
  from velocity_step[OF m b] have vy: "s_vy s' = f * s_vy s - G"
    and y: "s_y s' = s_y s + s_vy s' * p_dt p"
    by (simp_all add: f_def c_def v_def G_def)
  show "s_y s' = s_y s + s_vy s' * p_dt p" by (rule y)
  have "f * s_vy s \<le> max (s_vy s) 0"
  proof (cases "0 \<le> s_vy s")
    case True
    with f1 have "f * s_vy s \<le> 1 * s_vy s" by (intro mult_right_mono) simp_all
    with True show ?thesis by simp
  next
    case False
    with f0 have "f * s_vy s \<le> 0" by (simp add: mult_nonneg_nonpos)
    then show ?thesis by simp
  qed
  with vy show "s_vy s' \<le> max (s_vy s) 0 - self_g * p_dt p" by (simp add: G_def)
  from speed_step[OF m b] f0 G0 have "speed_of s' \<le> f * v + G"
    by (simp add: f_def c_def v_def G_def)
  with c0 have "c * speed_of s' \<le> c * (f * v + G)"
    unfolding c_def by (rule mult_left_mono[rotated])
  also have "c * (f * v + G) = (c * v) * (1 - c * v) + c * G"
    by (simp add: f_def algebra_simps)
  also have "(c * v) * (1 - c * v) \<le> 1 / 4"
  proof -
    have "0 \<le> (c * v - 1 / 2) ^ 2" by simp
    then show ?thesis by (simp add: power2_eq_square algebra_simps)
  qed
  also from small have "c * G \<le> 1 / 4" by (simp add: c_def G_def)
  finally show "drag_step p * speed_of s' \<le> 1" by (simp add: c_def)
qed

lemma loop_continue:
  assumes "0 \<le> s_y s" and "loop_body p s = Inr s1" and "loop k p s1 = Some (Inr s')"
  shows "loop (Suc k) p s = Some (Inr s')"
  using assms by simp

lemma falling_terminates:
  assumes m: "p_mass p \<noteq> 0" and c0: "0 \<le> drag_step p" and dt: "0 < p_dt p"
    and small: "drag_step p * (self_g * p_dt p) \<le> 1 / 4"
  shows "drag_step p * speed_of s \<le> 1 \<Longrightarrow> s_vy s < 0 \<Longrightarrow>
         s_y s < real n * (self_g * p_dt p * p_dt p) \<Longrightarrow>
         \<exists>k s'. loop k p s = Some (Inr s')"
proof (induction n arbitrary: s)
  case 0
  then have "s_y s < 0" by simp
  then have "loop 0 p s = Some (Inr s)" by (rule loop_exit)
  then show ?case by blast
next
  case (Suc n)
  show ?case
  proof (cases "0 \<le> s_y s")
    case False
    then have "loop 0 p s = Some (Inr s)" by (intro loop_exit) simp
    then show ?thesis by blast
  next
    case True
    from loop_body_total[OF m] obtain s1 where s1: "loop_body p s = Inr s1" by blast
    note g = gentle_step[OF m c0 dt small Suc.prems(1) s1]
    from g(2) Suc.prems(2) have vy1: "s_vy s1 \<le> - (self_g * p_dt p)" by simp
    from dt have "0 < self_g * p_dt p" by (simp add: self_g_def)
    with vy1 have neg: "s_vy s1 < 0" by linarith
    from vy1 dt have "s_vy s1 * p_dt p \<le> - (self_g * p_dt p) * p_dt p"
      by (intro mult_right_mono) simp_all
    with g(3) Suc.prems(3) have "s_y s1 < real n * (self_g * p_dt p * p_dt p)"
      by (simp add: algebra_simps)
    from Suc.IH[OF g(1) neg this] obtain k s' where "loop k p s1 = Some (Inr s')" by blast
    from loop_continue[OF True s1 this] show ?thesis by blast
  qed
qed

lemma rising_terminates:
  assumes m: "p_mass p \<noteq> 0" and c0: "0 \<le> drag_step p" and dt: "0 < p_dt p"
    and small: "drag_step p * (self_g * p_dt p) \<le> 1 / 4"
  shows "drag_step p * speed_of s \<le> 1 \<Longrightarrow> s_vy s < real n * (self_g * p_dt p) \<Longrightarrow>
         \<exists>k s'. loop k p s = Some (Inr s')"
proof (induction n arbitrary: s)
  case 0
  then have neg: "s_vy s < 0" by simp
  from dt have "0 < self_g * p_dt p * p_dt p" by (simp add: self_g_def)
  then obtain j where "s_y s < real j * (self_g * p_dt p * p_dt p)"
    using reals_Archimedean3 by blast
  from falling_terminates[OF m c0 dt small "0.prems"(1) neg this] show ?case .
next
  case (Suc n)
  show ?case
  proof (cases "0 \<le> s_y s")
    case False
    then have "loop 0 p s = Some (Inr s)" by (intro loop_exit) simp
    then show ?thesis by blast
  next
    case True
    from loop_body_total[OF m] obtain s1 where s1: "loop_body p s = Inr s1" by blast
    note g = gentle_step[OF m c0 dt small Suc.prems(1) s1]
    define G where "G = self_g * p_dt p"
    from dt have G: "0 < G" by (simp add: G_def self_g_def)
    then have n0: "0 \<le> real n * G" by simp
    have e: "real (Suc n) * G = real n * G + G" by (simp add: algebra_simps)
    from Suc.prems(2) have "s_vy s < real n * G + G" unfolding G_def[symmetric] e .
    moreover from n0 G have "0 < real n * G + G" by linarith
    ultimately have "max (s_vy s) 0 < real n * G + G" by simp
    moreover from g(2) have "s_vy s1 \<le> max (s_vy s) 0 - G" by (simp add: G_def)
    ultimately have "s_vy s1 < real n * (self_g * p_dt p)"
      unfolding G_def by linarith
    from Suc.IH[OF g(1) this] obtain k s' where "loop k p s1 = Some (Inr s')" by blast
    from loop_continue[OF True s1 this] show ?thesis by blast
  qed
qed

lemma launch_speed: "sqrt ((v * cos a) ^ 2 + (v * sin a) ^ 2) = \<bar>v\<bar>"
proof -
  have "(v * cos a) ^ 2 + (v * sin a) ^ 2 = v ^ 2 * ((cos a) ^ 2 + (sin a) ^ 2)"
    by (simp only: power_mult_distrib distrib_left)
  also have "\<dots> = v ^ 2" by simp
  finally show ?thesis by simp
qed

lemma upward_launch_terminates:
  assumes dt: "0 < p_dt p" and mass: "0 < p_mass p"
    and rho: "0 \<le> p_rho p" and Cd: "0 \<le> p_Cd p" and A: "0 \<le> p_A p"
    and v0: "0 \<le> p_v0 p" and up: "0 \<le> sin (p_angle p * (pi / 180))"
  shows "\<exists>n r. simulate n p = Some (Inr r)"
proof -
  define c where "c = drag_step p"
  define G where "G = self_g * p_dt p"
  from mass have m: "p_mass p \<noteq> 0" by simp
  from dt have G0: "0 < G" by (simp add: G_def self_g_def)
  from dt mass rho Cd A have c0: "0 \<le> c" by (simp add: c_def drag_step_def)
  obtain s0 where s0: "init_state p = Inr s0" using init_state_total by blast
  then have y0: "s_y s0 = 0"
    and vy0: "s_vy s0 = p_v0 p * sin (p_angle p * (pi / 180))"
    and vx0: "s_vx s0 = p_v0 p * cos (p_angle p * (pi / 180))"
    by (auto simp add: init_state_total math_radians_def)
  from vy0 v0 up have up0: "0 \<le> s_vy s0" by simp
  have sp0: "speed_of s0 = p_v0 p"
    unfolding speed_of_def vx0 vy0 launch_speed using v0 by simp
  have "\<exists>k s. loop k p s0 = Some (Inr s)"
  proof (cases "c * speed_of s0 \<le> 1 \<and> c * G \<le> 1 / 4")
    case True
    then have B: "drag_step p * speed_of s0 \<le> 1"
      and small: "drag_step p * (self_g * p_dt p) \<le> 1 / 4"
      by (simp_all add: c_def G_def)
    from G0 obtain j where "s_vy s0 < real j * (self_g * p_dt p)"
      unfolding G_def using reals_Archimedean3 by blast
    from rising_terminates[OF m c0[unfolded c_def] dt small B this] show ?thesis .
  next
    case False
    from loop_body_total[OF m] obtain s1 where s1: "loop_body p s0 = Inr s1" by blast
    define f where "f = 1 - c * speed_of s0"
    from velocity_step[OF m s1] have vy1: "s_vy s1 = f * s_vy s0 - G"
      and y1: "s_y s1 = s_y s0 + s_vy s1 * p_dt p"
      by (simp_all add: f_def c_def G_def)
    have "f * s_vy s0 < G"
    proof (cases "c * speed_of s0 \<le> 1")
      case fast: False
      then have "f \<le> 0" by (simp add: f_def)
      with up0 have "f * s_vy s0 \<le> 0" by (simp add: mult_nonpos_nonneg)
      with G0 show ?thesis by linarith
    next
      case slow: True
      with False have big: "1 / 4 < c * G" by simp
      with c0 G0 have cpos: "0 < c"
        by (cases "c = 0") simp_all
      from slow have f0: "0 \<le> f" by (simp add: f_def)
      from vy_le_speed[of s0] have "s_vy s0 \<le> speed_of s0" by simp
      then have "f * s_vy s0 \<le> f * speed_of s0" using f0 by (rule mult_left_mono)
      moreover have "c * (f * speed_of s0) \<le> 1 / 4"
      proof -
        have "0 \<le> (c * speed_of s0 - 1 / 2) ^ 2" by simp
        then show ?thesis by (simp add: f_def power2_eq_square algebra_simps)
      qed
      with big have "c * (f * speed_of s0) < c * G" by linarith
      with cpos have "f * speed_of s0 < G" by simp
      ultimately show ?thesis by linarith
    qed
    with vy1 have "s_vy s1 < 0" by simp
    with dt have "s_vy s1 * p_dt p < 0" by (simp add: mult_neg_pos)
    with y1 y0 have "s_y s1 < 0" by simp
    then have "loop 0 p s1 = Some (Inr s1)" by (rule loop_exit)
    with s1 y0 have "loop (Suc 0) p s0 = Some (Inr s1)" by simp
    then show ?thesis by blast
  qed
  then obtain k s where "loop k p s0 = Some (Inr s)" by blast
  with s0 have "simulate k p = Some (Inr (make_result p s))" by (simp add: simulate_def)
  then show ?thesis by blast
qed

section \<open>The claims\<close>

subsection \<open>C1: one pass of the loop is one explicit Euler step\<close>

text \<open>
  Claim C1. Whenever a pass of the loop body completes, the new velocity is the old one
  plus \<open>dt\<close> times the acceleration computed from the state at the start of the pass
  (with \<open>g = 9.81\<close>), the new position is the old one plus \<open>dt\<close> times the
  \<^emph>\<open>new\<close> velocity, and \<open>t\<close> grows by \<open>dt\<close>. The loop runs nothing but
  this body (see \<open>loop\<close>), so this holds for every iteration.
\<close>

theorem euler_step:
  assumes "loop_body p s = Inr s'"
  shows "let v = sqrt ((s_vx s) ^ 2 + (s_vy s) ^ 2);
             drag = 0.5 * p_rho p * p_Cd p * p_A p * v ^ 2;
             ax = (if v > 0 then - drag * s_vx s / (p_mass p * v) else 0);
             ay = (if v > 0 then - 9.81 - drag * s_vy s / (p_mass p * v) else - 9.81)
         in s_vx s' = s_vx s + ax * p_dt p \<and>
            s_vy s' = s_vy s + ay * p_dt p \<and>
            s_x s' = s_x s + s_vx s' * p_dt p \<and>
            s_y s' = s_y s + s_vy s' * p_dt p \<and>
            s_t s' = s_t s + p_dt p"
proof (cases "0 < sqrt ((s_vx s) ^ 2 + (s_vy s) ^ 2)")
  case True
  with assms have "p_mass p \<noteq> 0"
    using loop_body_massless[of s p] by auto
  from loop_body_moving[OF True this] assms True show ?thesis
    by (auto simp add: Let_def calculate_drag_force_def self_g_def)
next
  case False
  from loop_body_at_rest[OF False, of p] assms False show ?thesis
    by (auto simp add: Let_def self_g_def)
qed

text \<open>The first pass of the vertical shot: from \<open>vy = 100\<close> at \<open>y = 0\<close>.\<close>

theorem euler_step_witness:
  "loop_body vertical_shot
     \<lparr> s_x = 0, s_y = 0, s_vx = 0, s_vy = 100, s_trajectory = [(0, 0)], s_speeds = [100],
       s_t = 0, s_max_height = 0 \<rparr> =
   Inr \<lparr> s_x = 0, s_y = 12.875, s_vx = 0, s_vy = 2.575,
         s_trajectory = [(0, 0), (0, 12.875)], s_speeds = [100, 2.575],
         s_t = 5, s_max_height = 12.875 \<rparr> \<and>
   (2.575 :: real) = 100 + (- 9.81 - 0.5 * 1.29 * 0.15 * 0.01 * 100 ^ 2 * 100 / (1 * 100)) * 5 \<and>
   (12.875 :: real) = 0 + 2.575 * 5"
proof -
  have step: "loop_body vertical_shot
     \<lparr> s_x = 0, s_y = 0, s_vx = 0, s_vy = 100, s_trajectory = [(0, 0)], s_speeds = [100],
       s_t = 0, s_max_height = 0 \<rparr> =
   Inr \<lparr> s_x = 0, s_y = 12.875, s_vx = 0, s_vy = 2.575,
         s_trajectory = [(0, 0), (0, 12.875)], s_speeds = [100, 2.575],
         s_t = 5, s_max_height = 12.875 \<rparr>"
    by (simp add: eval_defs vertical_shot_def)
  from euler_step[OF step] step show ?thesis
    by (simp add: vertical_shot_def)
qed

subsection \<open>C2: quadratic drag and the acceleration of a moving body\<close>

text \<open>
  Claim C2. With \<open>v = sqrt (vx\<^sup>2 + vy\<^sup>2)\<close>, the drag is
  \<open>0.5 * rho * Cd * A * v\<^sup>2\<close>, and when \<open>v > 0\<close> (and the mass is not zero, so that
  the division is defined) the acceleration is
  \<open>ax = - drag * vx / (mass * v)\<close>, \<open>ay = - g - drag * vy / (mass * v)\<close> with
  \<open>g = 9.81\<close>. The loop body calls \<open>acceleration\<close> on the velocity of the
  state it is given, so this is the acceleration of every iteration.
\<close>

theorem quadratic_drag_acceleration:
  assumes "0 < sqrt (vx ^ 2 + vy ^ 2)" and "p_mass p \<noteq> 0"
  shows "let v = sqrt (vx ^ 2 + vy ^ 2);
             drag = calculate_drag_force v p
         in drag = 0.5 * p_rho p * p_Cd p * p_A p * v ^ 2 \<and>
            acceleration p vx vy =
              Inr (- drag * vx / (p_mass p * v), - 9.81 - drag * vy / (p_mass p * v))"
  using acceleration_moving[OF assms]
  by (simp add: Let_def calculate_drag_force_def self_g_def)

theorem quadratic_drag_acceleration_witness:
  "0 < sqrt ((0::real) ^ 2 + 100 ^ 2) \<and> p_mass vertical_shot \<noteq> 0 \<and>
   calculate_drag_force 100 vertical_shot = 9.675 \<and>
   acceleration vertical_shot 0 100 = Inr (0, - 19.485)"
  using quadratic_drag_acceleration[of 0 100 vertical_shot]
  by (simp add: vertical_shot_def calculate_drag_force_def)

subsection \<open>C3: the loop stops at the first negative height, which is recorded\<close>

text \<open>
  Claim C3. In the result of a run that terminates, the last sample of the trajectory
  has \<open>y < 0\<close> and every earlier sample has \<open>y \<ge> 0\<close>; the range is the
  \<open>x\<close> of that last sample, the final speed is the last entry of \<open>speeds\<close>, and
  the step carried in the result is the \<open>dt\<close> of the input. Nothing is interpolated
  back to \<open>y = 0\<close>. (The hypothesis \<open>timeStep > 0\<close> of the claim is not needed.)
\<close>

theorem landing_sample:
  assumes "simulate n p = Some (Inr r)"
  shows "r_trajectory r \<noteq> [] \<and>
         snd (last (r_trajectory r)) < 0 \<and>
         (\<forall>i < length (r_trajectory r) - 1. 0 \<le> snd (r_trajectory r ! i)) \<and>
         r_range r = fst (last (r_trajectory r)) \<and>
         r_speeds r \<noteq> [] \<and>
         r_final_speed r = last (r_speeds r) \<and>
         r_dt r = p_dt p"
proof -
  from assms obtain s0 s where s0: "init_state p = Inr s0"
    and run: "loop n p s0 = Some (Inr s)" and r: "r = make_result p s"
    by (auto simp add: simulate_eq_Inr)
  define I where "I = (\<lambda>a :: state.
     s_trajectory a \<noteq> [] \<and> last (s_trajectory a) = (s_x a, s_y a) \<and>
     (\<forall>i < length (s_trajectory a) - 1. 0 \<le> snd (s_trajectory a ! i)) \<and>
     s_speeds a \<noteq> [])"
  have init: "I s0" using s0 by (auto simp add: I_def init_state_total)
  have step: "I b" if a: "I a" and y: "0 \<le> s_y a" and b: "loop_body p a = Inr b" for a b
  proof -
    from loop_body_appends[OF b] obtain speed :: real
      where t: "s_trajectory b = s_trajectory a @ [(s_x b, s_y b)]"
        and sp: "s_speeds b = s_speeds a @ [speed]" by blast
    from a have ne: "s_trajectory a \<noteq> []"
      and la: "last (s_trajectory a) = (s_x a, s_y a)"
      and old: "\<forall>i < length (s_trajectory a) - 1. 0 \<le> snd (s_trajectory a ! i)"
      by (simp_all add: I_def)
    have "0 \<le> snd (s_trajectory b ! i)" if i: "i < length (s_trajectory b) - 1" for i
    proof (cases "i < length (s_trajectory a) - 1")
      case True
      with old t show ?thesis by (auto simp add: nth_append)
    next
      case False
      with i t ne have "i = length (s_trajectory a) - 1" by simp
      with ne la t y show ?thesis by (auto simp add: nth_append last_conv_nth)
    qed
    with t sp show ?thesis by (simp add: I_def)
  qed
  have "I s \<and> s_y s < 0"
  proof (rule loop_rule[of n p s0 s I])
    show "loop n p s0 = Some (Inr s)" by (rule run)
    show "I s0" by (rule init)
    fix a b assume "I a" "0 \<le> s_y a" "loop_body p a = Inr b"
    then show "I b" by (rule step)
  qed
  with r show ?thesis by (simp add: I_def make_result_def)
qed

text \<open>The vertical shot: samples at heights 0, 12.875 and about -219.66.\<close>

theorem landing_sample_witness:
  "simulate 2 vertical_shot = Some (Inr vertical_shot_result) \<and>
   r_trajectory vertical_shot_result = [(0, 0), (0, 103 / 8), (0, - (5623305683 / 25600000))] \<and>
   snd (last (r_trajectory vertical_shot_result)) < 0 \<and>
   0 \<le> snd (r_trajectory vertical_shot_result ! 0) \<and>
   0 \<le> snd (r_trajectory vertical_shot_result ! 1) \<and>
   r_range vertical_shot_result = fst (last (r_trajectory vertical_shot_result)) \<and>
   r_final_speed vertical_shot_result = last (r_speeds vertical_shot_result) \<and>
   r_dt vertical_shot_result = p_dt vertical_shot"
proof -
  have t: "r_trajectory vertical_shot_result =
      [(0, 0), (0, 103 / 8), (0, - (5623305683 / 25600000))]"
    by (simp add: vertical_shot_result_def)
  then have "0 < length (r_trajectory vertical_shot_result) - 1"
    and "1 < length (r_trajectory vertical_shot_result) - 1"
    by simp_all
  with landing_sample[OF vertical_shot_run] vertical_shot_run t
  show ?thesis by blast
qed

subsection \<open>C4: shape of the trajectory and of the speed list\<close>

text \<open>
  Claim C4. For a run with \<open>initialSpeed > 0\<close> that terminates, \<open>trajectory\<close> and
  \<open>speeds\<close> have the same length, at least 2; the first sample is \<open>(0, 0)\<close>, the
  first speed is \<open>initialSpeed\<close>, and the loop is entered with
  \<open>vx = v0 * cos \<theta>\<close>, \<open>vy = v0 * sin \<theta>\<close>, where \<open>\<theta>\<close> is the launch angle
  in radians (\<open>angle * \<pi> / 180\<close>). (The hypothesis \<open>timeStep > 0\<close> of the claim is not
  needed.)
\<close>

theorem trajectory_shape:
  assumes "0 < p_v0 p" and "simulate n p = Some (Inr r)"
  shows "length (r_trajectory r) = length (r_speeds r) \<and>
         2 \<le> length (r_trajectory r) \<and>
         r_trajectory r ! 0 = (0, 0) \<and>
         r_speeds r ! 0 = p_v0 p \<and>
         (\<exists>s0. init_state p = Inr s0 \<and>
               s_vx s0 = p_v0 p * cos (p_angle p * (pi / 180)) \<and>
               s_vy s0 = p_v0 p * sin (p_angle p * (pi / 180)))"
proof -
  from assms(2) obtain s0 s where s0: "init_state p = Inr s0"
    and run: "loop n p s0 = Some (Inr s)" and r: "r = make_result p s"
    by (auto simp add: simulate_eq_Inr)
  define I where "I = (\<lambda>a :: state. length (s_trajectory a) = length (s_speeds a) \<and>
                  s_trajectory a \<noteq> [] \<and>
                  s_trajectory a ! 0 = (0, 0) \<and>
                  s_speeds a ! 0 = p_v0 p \<and>
                  (2 \<le> length (s_trajectory a) \<or> s_y a = 0))"
  have init: "I s0"
    using s0 assms(1) by (auto simp add: I_def init_state_total initial_speed)
  have step: "I b" if a: "I a" and y: "0 \<le> s_y a" and b: "loop_body p a = Inr b" for a b
  proof -
    from loop_body_appends[OF b] obtain speed :: real
      where t: "s_trajectory b = s_trajectory a @ [(s_x b, s_y b)]"
        and sp: "s_speeds b = s_speeds a @ [speed]" by blast
    from a have "1 \<le> length (s_trajectory a)" "1 \<le> length (s_speeds a)"
      by (auto simp add: I_def Suc_le_eq)
    with a t sp show ?thesis by (auto simp add: I_def nth_append)
  qed
  have "I s \<and> s_y s < 0"
  proof (rule loop_rule[of n p s0 s I])
    show "loop n p s0 = Some (Inr s)" by (rule run)
    show "I s0" by (rule init)
    fix a b assume "I a" "0 \<le> s_y a" "loop_body p a = Inr b"
    then show "I b" by (rule step)
  qed
  then have "I s" and "s_y s < 0" by blast+
  with r s0 show ?thesis
    by (auto simp add: I_def make_result_def init_state_total math_radians_def)
qed

theorem trajectory_shape_witness:
  "0 < p_v0 vertical_shot \<and>
   simulate 2 vertical_shot = Some (Inr vertical_shot_result) \<and>
   length (r_trajectory vertical_shot_result) = length (r_speeds vertical_shot_result) \<and>
   2 \<le> length (r_trajectory vertical_shot_result) \<and>
   r_trajectory vertical_shot_result ! 0 = (0, 0) \<and>
   r_speeds vertical_shot_result ! 0 = p_v0 vertical_shot \<and>
   (\<exists>s0. init_state vertical_shot = Inr s0 \<and>
         s_vx s0 = p_v0 vertical_shot * cos (p_angle vertical_shot * (pi / 180)) \<and>
         s_vy s0 = p_v0 vertical_shot * sin (p_angle vertical_shot * (pi / 180)))"
proof -
  have v: "0 < p_v0 vertical_shot" by (simp add: vertical_shot_def)
  from trajectory_shape[OF v vertical_shot_run] v vertical_shot_run
  show ?thesis by blast
qed

subsection \<open>C5: the reported maximum height\<close>

text \<open>
  Claim C5. In the result of a run that terminates, \<open>max_height\<close> is at least the
  \<open>y\<close> of every sample of the trajectory, and it is the maximum of these \<open>y\<close>.
  (The first sample has \<open>y = 0\<close>, the value \<open>max_height\<close> starts from.)
\<close>

theorem max_height_is_maximum:
  assumes "simulate n p = Some (Inr r)"
  shows "(\<forall>q \<in> set (r_trajectory r). snd q \<le> r_max_height r) \<and>
         r_max_height r = Max (snd ` set (r_trajectory r))"
proof -
  from assms obtain s0 s where s0: "init_state p = Inr s0"
    and run: "loop n p s0 = Some (Inr s)" and r: "r = make_result p s"
    by (auto simp add: simulate_eq_Inr)
  define I where "I = (\<lambda>a :: state. s_trajectory a \<noteq> [] \<and>
                            s_max_height a = Max (snd ` set (s_trajectory a)))"
  have init: "I s0" using s0 by (auto simp add: I_def init_state_total)
  have step: "I b" if a: "I a" and y: "0 \<le> s_y a" and b: "loop_body p a = Inr b" for a b
  proof -
    define M where "M = Max (snd ` set (s_trajectory a))"
    from loop_body_appends[OF b] obtain speed :: real
      where t: "s_trajectory b = s_trajectory a @ [(s_x b, s_y b)]"
        and m: "s_max_height b = (if s_y b > s_max_height a then s_y b else s_max_height a)"
      by blast
    from a have ne: "snd ` set (s_trajectory a) \<noteq> {}" and mh: "s_max_height a = M"
      by (simp_all add: I_def M_def)
    have "Max (snd ` set (s_trajectory b)) = max (s_y b) M"
      using t ne by (simp add: M_def)
    moreover from m mh have "s_max_height b = max (s_y b) M"
      by (simp add: max_def)
    ultimately show ?thesis using t by (simp add: I_def)
  qed
  have "I s \<and> s_y s < 0"
  proof (rule loop_rule[of n p s0 s I])
    show "loop n p s0 = Some (Inr s)" by (rule run)
    show "I s0" by (rule init)
    fix a b assume "I a" "0 \<le> s_y a" "loop_body p a = Inr b"
    then show "I b" by (rule step)
  qed
  then have mx: "s_max_height s = Max (snd ` set (s_trajectory s))"
    by (simp add: I_def)
  have "snd q \<le> Max (snd ` set (s_trajectory s))" if "q \<in> set (s_trajectory s)" for q
    using that by (intro Max_ge) simp_all
  with mx r show ?thesis by (simp add: make_result_def)
qed

theorem max_height_is_maximum_witness:
  "simulate 2 vertical_shot = Some (Inr vertical_shot_result) \<and>
   r_max_height vertical_shot_result = Max (snd ` set (r_trajectory vertical_shot_result)) \<and>
   r_max_height vertical_shot_result = 103 / 8"
proof -
  have "r_max_height vertical_shot_result = 103 / 8"
    by (simp add: vertical_shot_result_def)
  with max_height_is_maximum[OF vertical_shot_run] vertical_shot_run
  show ?thesis by blast
qed

subsection \<open>C7: no pass of the loop raises\<close>

text \<open>
  Claim C7. With a positive mass every pass of the loop body completes, from any
  state: the two divisions by \<open>mass * v\<close> are reached only when \<open>v > 0\<close>, and
  at speed zero the acceleration is \<open>(0, - g)\<close>. Hence no run ends in an error,
  whatever the bound on the number of passes.
\<close>

theorem arithmetic_total:
  assumes "0 < p_mass p"
  shows "(\<exists>s'. loop_body p s = Inr s') \<and>
         acceleration p 0 0 = Inr (0, - 9.81) \<and>
         simulate n p \<noteq> Some (Inl e)"
proof -
  from assms have m: "p_mass p \<noteq> 0" by simp
  have "acceleration p 0 0 = Inr (0, - 9.81)"
    using acceleration_at_rest[of 0 0 p] by (simp add: self_g_def)
  moreover have "simulate n p \<noteq> Some (Inl e)"
    using loop_no_error[OF m]
    by (simp add: simulate_def init_state_total split: option.splits sum.splits)
  ultimately show ?thesis using loop_body_total[OF m] by blast
qed

text \<open>A body at rest at the origin, with the parameters of the vertical shot.\<close>

theorem arithmetic_total_witness:
  "0 < p_mass vertical_shot \<and>
   (\<exists>s'. loop_body vertical_shot
           \<lparr> s_x = 0, s_y = 0, s_vx = 0, s_vy = 0, s_trajectory = [(0, 0)],
             s_speeds = [0], s_t = 0, s_max_height = 0 \<rparr> = Inr s') \<and>
   acceleration vertical_shot 0 0 = Inr (0, - 9.81) \<and>
   simulate 2 vertical_shot \<noteq> Some (Inl ZeroDivisionError)"
proof -
  have m: "0 < p_mass vertical_shot" by (simp add: vertical_shot_def)
  from arithmetic_total[OF m] m show ?thesis by blast
qed

subsection \<open>C8: determinism\<close>

text \<open>
  Claim C8. Two calls of \<open>run_simulation\<close> with the same parameters append the same
  result, in every field: it depends neither on the results already stored, nor on
  \<open>color_index\<close>, nor on the bound on the number of passes under which each call
  was observed to return.
\<close>

theorem run_deterministic:
  assumes "run_simulation n a (Some p) = Some (Inr a1)"
    and "run_simulation m b (Some p) = Some (Inr a2)"
  shows "\<exists>r. simulate n p = Some (Inr r) \<and> simulate m p = Some (Inr r) \<and>
             results a1 = results a @ [r] \<and> results a2 = results b @ [r]"
proof -
  from assms(1) obtain r1 where r1: "simulate n p = Some (Inr r1)"
    and a1: "results a1 = results a @ [r1]"
    by (auto simp add: run_simulation_def split: option.splits sum.splits)
  from assms(2) obtain r2 where r2: "simulate m p = Some (Inr r2)"
    and a2: "results a2 = results b @ [r2]"
    by (auto simp add: run_simulation_def split: option.splits sum.splits)
  from simulate_fuel_independent[OF r1 r2] have "r1 = r2" by simp
  with r1 r2 a1 a2 show ?thesis by simp
qed

theorem run_deterministic_witness:
  "run_simulation 2 empty_app (Some vertical_shot) =
     Some (Inr \<lparr> results = [vertical_shot_result], color_index = 1 \<rparr>) \<and>
   run_simulation 7 used_app (Some vertical_shot) =
     Some (Inr \<lparr> results = [vertical_shot_result, vertical_shot_result], color_index = 2 \<rparr>) \<and>
   simulate 2 vertical_shot = Some (Inr vertical_shot_result) \<and>
   simulate 7 vertical_shot = Some (Inr vertical_shot_result)"
proof -
  have seven: "simulate 7 vertical_shot = Some (Inr vertical_shot_result)"
    using simulate_fuel_mono[OF vertical_shot_run, of 5] by simp
  have one: "run_simulation 2 empty_app (Some vertical_shot) =
     Some (Inr \<lparr> results = [vertical_shot_result], color_index = 1 \<rparr>)"
    by (simp add: run_simulation_def vertical_shot_run empty_app_def)
  have two: "run_simulation 7 used_app (Some vertical_shot) =
     Some (Inr \<lparr> results = [vertical_shot_result, vertical_shot_result], color_index = 2 \<rparr>)"
    by (simp add: run_simulation_def seven used_app_def)
  from run_deterministic[OF one two] one two vertical_shot_run seven
  show ?thesis by blast
qed

subsection \<open>C9: the drag coefficient and the range\<close>




subsection \<open>C10: the simulated time\<close>

text \<open>
  Claim C10. When the loop is left, \<open>t = (len(trajectory) - 1) * dt\<close>; the flight
  time that \<open>update_table\<close> shows, \<open>len(trajectory) * dt\<close>, is one step more.
\<close>

theorem simulated_time:
  assumes "init_state p = Inr s0" and "loop n p s0 = Some (Inr s)"
  shows "s_t s = real (length (s_trajectory s) - 1) * p_dt p \<and>
         flight_time (make_result p s) = s_t s + p_dt p"
proof -
  define I where "I = (\<lambda>a :: state.
     s_trajectory a \<noteq> [] \<and> s_t a + p_dt p = real (length (s_trajectory a)) * p_dt p)"
  have init: "I s0" using assms(1) by (auto simp add: I_def init_state_total)
  have step: "I b" if a: "I a" and y: "0 \<le> s_y a" and b: "loop_body p a = Inr b" for a b
  proof -
    from loop_body_appends[OF b] obtain speed :: real
      where t: "s_trajectory b = s_trajectory a @ [(s_x b, s_y b)]"
        and tm: "s_t b = s_t a + p_dt p"
      by blast
    from a have "s_t a + p_dt p = real (length (s_trajectory a)) * p_dt p"
      by (simp add: I_def)
    with t tm show ?thesis by (simp add: I_def algebra_simps)
  qed
  have "I s \<and> s_y s < 0"
  proof (rule loop_rule[of n p s0 s I])
    show "loop n p s0 = Some (Inr s)" by (rule assms(2))
    show "I s0" by (rule init)
    fix a b assume "I a" "0 \<le> s_y a" "loop_body p a = Inr b"
    then show "I b" by (rule step)
  qed
  then have ne: "s_trajectory s \<noteq> []"
    and t: "s_t s + p_dt p = real (length (s_trajectory s)) * p_dt p"
    by (simp_all add: I_def)
  from ne obtain k where k: "length (s_trajectory s) = Suc k"
    by (cases "s_trajectory s") simp_all
  from t k have "s_t s = real k * p_dt p" by (simp add: algebra_simps)
  with t k show ?thesis by (simp add: flight_time_def make_result_def)
qed

theorem simulated_time_witness:
  "init_state vertical_shot = Inr vertical_shot_start \<and>
   loop 2 vertical_shot vertical_shot_start = Some (Inr vertical_shot_landed) \<and>
   s_t vertical_shot_landed =
     real (length (s_trajectory vertical_shot_landed) - 1) * p_dt vertical_shot \<and>
   flight_time (make_result vertical_shot vertical_shot_landed) =
     s_t vertical_shot_landed + p_dt vertical_shot \<and>
   s_t vertical_shot_landed = 10 \<and>
   flight_time (make_result vertical_shot vertical_shot_landed) = 15"
proof -
  have "s_t vertical_shot_landed = 10" by (simp add: vertical_shot_landed_def)
  moreover have "flight_time (make_result vertical_shot vertical_shot_landed) = 15"
    by (simp add: flight_time_def make_result_def vertical_shot_landed_def vertical_shot_def)
  ultimately show ?thesis
    using simulated_time[OF vertical_shot_init vertical_shot_loop]
      vertical_shot_init vertical_shot_loop
    by blast
qed

end
